theory Spec2Isabelle
  imports Complex_Main "HOL-Library.Word"
begin

unbundle bit_operations_syntax

section \<open>Values and strings of the host language\<close>

text \<open>
  A shallow embedding of the protective mechanisms of the Cloudflare MCP server:
  the audit sanitizer (\<^verbatim>\<open>audit-logger.ts\<close>), the GraphQL query guard
  (\<^verbatim>\<open>graphql-validator.ts\<close>), the token bucket (\<^verbatim>\<open>rate-limiter.ts\<close>) and the
  credential obfuscation and request routines of \<^verbatim>\<open>api-client.ts\<close>.

  Strings are byte strings: a \<^typ>\<open>string\<close> stands for the UTF-8 bytes of a JavaScript
  string. Case mapping and white space are the ASCII ones, so the model speaks about
  ASCII keys and ASCII query text. Numbers are real numbers (no rounding, no NaN).
\<close>

datatype json =
    JUndefined
  | JNull
  | JBool bool
  | JNum real
  | JStr string
  | JArr "json list"
  | JObj "(string \<times> json) list"

text \<open>What \<^verbatim>\<open>throw\<close> carries: an \<^verbatim>\<open>Error\<close>, its subclass \<^verbatim>\<open>SyntaxError\<close>, or a value that is no
  \<^verbatim>\<open>Error\<close> at all.\<close>

datatype thrown = Error string | SyntaxError string | NonError

fun instanceof_Error :: "thrown \<Rightarrow> bool" where
  "instanceof_Error (Error m) = True"
| "instanceof_Error (SyntaxError m) = True"
| "instanceof_Error NonError = False"

fun instanceof_SyntaxError :: "thrown \<Rightarrow> bool" where
  "instanceof_SyntaxError (SyntaxError m) = True"
| "instanceof_SyntaxError e = False"

fun message_of :: "thrown \<Rightarrow> string" where
  "message_of (Error m) = m"
| "message_of (SyntaxError m) = m"
| "message_of NonError = []"

fun typeof :: "json \<Rightarrow> string" where
  "typeof JUndefined = ''undefined''"
| "typeof JNull = ''object''"
| "typeof (JBool b) = ''boolean''"
| "typeof (JNum n) = ''number''"
| "typeof (JStr s) = ''string''"
| "typeof (JArr vs) = ''object''"
| "typeof (JObj es) = ''object''"

text \<open>Truthiness, as \<^verbatim>\<open>!x\<close> and \<^verbatim>\<open>if (x)\<close> test it.\<close>

fun truthy :: "json \<Rightarrow> bool" where
  "truthy JUndefined = False"
| "truthy JNull = False"
| "truthy (JBool b) = b"
| "truthy (JNum n) = (n \<noteq> 0)"
| "truthy (JStr s) = (s \<noteq> [])"
| "truthy (JArr vs) = True"
| "truthy (JObj es) = True"

fun isArray :: "json \<Rightarrow> bool" where
  "isArray (JArr vs) = True"
| "isArray v = False"

fun string_of :: "json \<Rightarrow> string" where
  "string_of (JStr s) = s"
| "string_of v = []"

definition toLowerChar :: "char \<Rightarrow> char" where
  "toLowerChar c =
     (case map_of (zip ''ABCDEFGHIJKLMNOPQRSTUVWXYZ'' ''abcdefghijklmnopqrstuvwxyz'') c of
        Some l \<Rightarrow> l
      | None \<Rightarrow> c)"

definition toLowerCase :: "string \<Rightarrow> string" where
  "toLowerCase s = map toLowerChar s"

fun startsWith :: "string \<Rightarrow> string \<Rightarrow> bool" where
  "startsWith s [] = True"
| "startsWith [] (p # ps) = False"
| "startsWith (c # cs) (p # ps) = (c = p \<and> startsWith cs ps)"

text \<open>\<^verbatim>\<open>s.includes(k)\<close>: \<open>k\<close> occurs in \<open>s\<close> as a contiguous substring.\<close>

fun str_includes :: "string \<Rightarrow> string \<Rightarrow> bool" where
  "str_includes [] k = startsWith [] k"
| "str_includes (c # cs) k = (startsWith (c # cs) k \<or> str_includes cs k)"

text \<open>White space as \<^verbatim>\<open>\s\<close> and \<^verbatim>\<open>trim()\<close> see it (space, tab, line feed, vertical tab,
  form feed, carriage return).\<close>

definition isSpace :: "char \<Rightarrow> bool" where
  "isSpace c = (c \<in> set [CHR '' '', CHR 0x09, CHR 0x0A, CHR 0x0B, CHR 0x0C, CHR 0x0D])"

definition trim :: "string \<Rightarrow> string" where
  "trim s = rev (dropWhile isSpace (rev (dropWhile isSpace s)))"

fun join :: "string \<Rightarrow> string list \<Rightarrow> string" where
  "join sep [] = []"
| "join sep [x] = x"
| "join sep (x # y # rest) = x @ sep @ join sep (y # rest)"

text \<open>\<^verbatim>\<open>[...new Set(xs)]\<close>: the elements in order of first occurrence.\<close>

fun Set_values :: "'a list \<Rightarrow> 'a list \<Rightarrow> 'a list" where
  "Set_values seen [] = seen"
| "Set_values seen (x # xs) = Set_values (if x \<in> set seen then seen else seen @ [x]) xs"

text \<open>Decimal rendering of an array index, as \<^verbatim>\<open>Object.entries\<close> names the elements of an array.\<close>

fun String_of_nat :: "nat \<Rightarrow> string" where
  "String_of_nat n =
     (if n < 10 then [''0123456789'' ! n]
      else String_of_nat (n div 10) @ [''0123456789'' ! (n mod 10)])"

declare String_of_nat.simps [simp del]

text \<open>The own enumerable properties of an object, in order, as \<^verbatim>\<open>Object.entries\<close> lists them.
  An array is an object whose properties are its indices. The sanitizer applies the function
  to objects only; the model gives the other values no properties.\<close>

fun Object_entries :: "json \<Rightarrow> (string \<times> json) list" where
  "Object_entries (JObj es) = es"
| "Object_entries (JArr vs) = zip (map String_of_nat [0..<length vs]) vs"
| "Object_entries v = []"

section \<open>Audit logging (audit-logger.ts)\<close>

record AuditEvent =
  timestamp :: string
  tool :: string
  parameters :: "(string \<times> json) list"
  success :: bool
  errorMessage :: "string option"
  durationMs :: int

definition REDACT_KEYS :: "string list" where
  "REDACT_KEYS = [''api_key'', ''token'', ''secret'', ''password'', ''key'', ''credential'']"

text \<open>\<^verbatim>\<open>REDACT_KEYS.some(k => key.toLowerCase().includes(k))\<close>\<close>

definition redact_key :: "string \<Rightarrow> bool" where
  "redact_key key = list_ex (\<lambda>k. str_includes (toLowerCase key) k) REDACT_KEYS"

definition REDACTED :: json where
  "REDACTED = JStr ''[REDACTED]''"

fun put :: "(string \<times> json) list \<Rightarrow> string \<Rightarrow> json \<Rightarrow> (string \<times> json) list" where
  "put [] key v = [(key, v)]"
| "put ((k, w) # rest) key v = (if k = key then (k, v) # rest else (k, w) # put rest key v)"

text \<open>
  The assignment \<^verbatim>\<open>result[key] = v\<close> on an object created by \<^verbatim>\<open>{}\<close>: the property is
  overwritten in place or appended. The name \<^verbatim>\<open>__proto__\<close> is the inherited accessor of
  \<^verbatim>\<open>Object.prototype\<close>: assigning to it never creates an own property.
\<close>

definition assign :: "(string \<times> json) list \<Rightarrow> string \<Rightarrow> json \<Rightarrow> (string \<times> json) list" where
  "assign result key v = (if key = ''__proto__'' then result else put result key v)"

definition entries_weight :: "(string \<times> json) list \<Rightarrow> nat" where
  "entries_weight es = sum_list (map (\<lambda>e. Suc (size (snd e))) es)"

lemma entries_weight_le: "entries_weight (Object_entries p) \<le> size p"
proof (cases p)
  case (JObj es)
  have "entries_weight es \<le> size_list (size_prod (\<lambda>_. 0) size) es"
    by (induction es) (auto simp: entries_weight_def)
  with JObj show ?thesis by simp
next
  case (JArr vs)
  have "entries_weight (zip ks vs) \<le> size_list size vs" for ks :: "string list"
  proof (induction vs arbitrary: ks)
    case Nil
    then show ?case by (simp add: entries_weight_def)
  next
    case (Cons v vs)
    then show ?case by (cases ks) (auto simp: entries_weight_def le_SucI)
  qed
  with JArr show ?thesis by (simp add: le_SucI)
qed (simp_all add: entries_weight_def)

text \<open>
  \<^verbatim>\<open>sanitizeParams\<close>: the \<^verbatim>\<open>for\<close> loop over \<^verbatim>\<open>Object.entries(params)\<close> is \<open>sanitize_loop\<close>,
  with the object under construction as its second argument.
\<close>

function sanitizeParams :: "json \<Rightarrow> (string \<times> json) list"
  and sanitize_loop :: "(string \<times> json) list \<Rightarrow> (string \<times> json) list \<Rightarrow> (string \<times> json) list"
where
  "sanitizeParams params = sanitize_loop (Object_entries params) []"
| "sanitize_loop [] result = result"
| "sanitize_loop ((key, value) # rest) result =
     sanitize_loop rest
       (if redact_key key then assign result key REDACTED
        else if typeof value = ''object'' \<and> value \<noteq> JNull
          then assign result key (JObj (sanitizeParams value))
        else assign result key value)"
  by pat_completeness auto
termination
proof (relation "measure (\<lambda>x. case x of Inl p \<Rightarrow> 2 * size p + 2
                                      | Inr (es, r) \<Rightarrow> 2 * entries_weight es + 1)")
  fix params
  show "(Inr (Object_entries params, []), Inl params)
        \<in> measure (\<lambda>x. case x of Inl p \<Rightarrow> 2 * size p + 2
                                      | Inr (es, r) \<Rightarrow> 2 * entries_weight es + 1)"
    using entries_weight_le [of params] by simp
qed (simp_all add: entries_weight_def)

declare sanitizeParams.simps [simp del]

text \<open>The value that the loop body stores under \<open>key\<close>, and the mappings in which, at
  every depth, a matching key holds the marker (keys unique, no array, no own
  \<^verbatim>\<open>__proto__\<close>).\<close>

definition assigned_value :: "string \<Rightarrow> json \<Rightarrow> json" where
  "assigned_value key value =
     (if redact_key key then REDACTED
      else if typeof value = ''object'' \<and> value \<noteq> JNull then JObj (sanitizeParams value)
      else value)"

fun sanitized :: "json \<Rightarrow> bool" where
  "sanitized (JObj es) =
     (distinct (map fst es) \<and> ''__proto__'' \<notin> set (map fst es) \<and>
      list_all (\<lambda>(k, v). if redact_key k then v = REDACTED else sanitized v) es)"
| "sanitized (JArr vs) = False"
| "sanitized v = True"

text \<open>
  \<^verbatim>\<open>logAuditEvent\<close>: the object handed to \<^verbatim>\<open>JSON.stringify\<close> and written to standard error,
  appended here to the list of lines written so far. The \<^verbatim>\<open>errorMessage\<close> property is
  spread in only when the message is a non-empty string.
\<close>

definition logAuditEvent :: "AuditEvent \<Rightarrow> json list \<Rightarrow> json list" where
  "logAuditEvent event stderr =
     stderr @
     [JObj ([(''type'', JStr ''audit''),
             (''timestamp'', JStr (timestamp event)),
             (''tool'', JStr (tool event)),
             (''parameters'', JObj (sanitizeParams (JObj (parameters event)))),
             (''success'', JBool (AuditEvent.success event)),
             (''durationMs'', JNum (real_of_int (durationMs event)))] @
            (case errorMessage event of
               None \<Rightarrow> []
             | Some m \<Rightarrow> if m \<noteq> [] then [(''errorMessage'', JStr m)] else []))]"

section \<open>GraphQL query guard (graphql-validator.ts)\<close>

text \<open>
  The regular expressions of \<^verbatim>\<open>BLOCKED_PATTERNS\<close> use three constructs only: a literal, \<^verbatim>\<open>\s*\<close>
  and a character class; all carry the flag \<^verbatim>\<open>i\<close>.
\<close>

datatype atom = Lit string | Spaces | OneOf string

fun match_here :: "atom list \<Rightarrow> string \<Rightarrow> bool" where
  "match_here [] s = True"
| "match_here (Lit l # r) s =
     (startsWith (toLowerCase s) (toLowerCase l) \<and> match_here r (drop (length l) s))"
| "match_here (Spaces # r) [] = match_here r []"
| "match_here (Spaces # r) (c # cs) =
     ((isSpace c \<and> match_here (Spaces # r) cs) \<or> match_here r (c # cs))"
| "match_here (OneOf cls # r) [] = False"
| "match_here (OneOf cls # r) (c # cs) =
     (toLowerChar c \<in> set (toLowerCase cls) \<and> match_here r cs)"

text \<open>\<^verbatim>\<open>pattern.test(s)\<close>: the pattern matches at some position of \<open>s\<close>.\<close>

fun regex_test :: "atom list \<Rightarrow> string \<Rightarrow> bool" where
  "regex_test p [] = match_here p []"
| "regex_test p (c # cs) = (match_here p (c # cs) \<or> regex_test p cs)"

definition BLOCKED_PATTERNS :: "atom list list" where
  "BLOCKED_PATTERNS =
     [[Lit ''__schema''],
      [Lit ''__type''],
      [Lit ''mutation'', Spaces, OneOf ''{(''],
      [Lit ''subscription'', Spaces, OneOf ''{('']]"

definition ALLOWED_OPERATION_STARTS :: "string list" where
  "ALLOWED_OPERATION_STARTS = [''query'', ''{'']"

definition validateGraphQLQuery :: "json \<Rightarrow> thrown + unit" where
  "validateGraphQLQuery query =
     (if \<not> truthy query \<or> typeof query \<noteq> ''string''
        then Inl (Error ''GraphQL query must be a non-empty string'')
      else
        let trimmed = trim (string_of query) in
        if length trimmed = 0
          then Inl (Error ''GraphQL query cannot be empty'')
        else if list_ex (\<lambda>pattern. regex_test pattern trimmed) BLOCKED_PATTERNS
          then Inl (Error ''GraphQL query contains disallowed operations'')
        else
          let lowerTrimmed = toLowerCase trimmed;
              startsWithAllowed = list_ex (\<lambda>op. startsWith lowerTrimmed op) ALLOWED_OPERATION_STARTS
          in if \<not> startsWithAllowed
               then Inl (Error ''GraphQL query must be a read-only query operation'')
             else Inr ())"





text \<open>
  \<^verbatim>\<open>validateGraphQLVariables\<close>. \<^verbatim>\<open>JSON.parse\<close> belongs to the platform and is a parameter: it
  returns the parsed value or what it throws.
\<close>

definition validateGraphQLVariables ::
  "(string \<Rightarrow> thrown + json) \<Rightarrow> string option \<Rightarrow> thrown + json" where
  "validateGraphQLVariables JSON_parse variables =
     (case variables of
        None \<Rightarrow> Inr (JObj [])
      | Some text \<Rightarrow>
          if text = [] then Inr (JObj [])
          else
            (case (case JSON_parse text of
                     Inl e \<Rightarrow> Inl e
                   | Inr parsed \<Rightarrow>
                       if typeof parsed \<noteq> ''object'' \<or> parsed = JNull \<or> isArray parsed
                         then Inl (Error ''GraphQL variables must be a JSON object'')
                       else Inr parsed) of
               Inl error \<Rightarrow>
                 if instanceof_SyntaxError error
                   then Inl (Error ''Invalid JSON in GraphQL variables parameter'')
                 else Inl error
             | Inr parsed \<Rightarrow> Inr parsed))"

section \<open>Token bucket (rate-limiter.ts)\<close>

record RateLimiter =
  tokens :: real
  lastRefill :: int
  maxTokens :: real
  refillRate :: real

text \<open>The constructor; \<open>now\<close> is the value of \<^verbatim>\<open>Date.now()\<close> it reads.\<close>

definition RateLimiter_new :: "real \<Rightarrow> real \<Rightarrow> int \<Rightarrow> RateLimiter" where
  "RateLimiter_new maxTokens' refillRate' now =
     \<lparr>tokens = maxTokens', lastRefill = now, maxTokens = maxTokens', refillRate = refillRate'\<rparr>"

definition refill :: "int \<Rightarrow> RateLimiter \<Rightarrow> RateLimiter" where
  "refill now rl =
     (let elapsed = real_of_int (now - lastRefill rl) / 1000
      in rl\<lparr>tokens := min (maxTokens rl) (tokens rl + elapsed * refillRate rl),
            lastRefill := now\<rparr>)"

text \<open>The delay a timer really uses: a delay below 1 or above \<open>2\<^sup>3\<^sup>1 - 1\<close> milliseconds is
  replaced by 1.\<close>

definition setTimeout_delay :: "int \<Rightarrow> int" where
  "setTimeout_delay ms = (if 1 \<le> ms \<and> ms \<le> 2147483647 then ms else 1)"

text \<open>
  \<^verbatim>\<open>acquire\<close>. The clock is explicit: \<open>now\<close> is the time at which the call reads
  \<^verbatim>\<open>Date.now()\<close>, and the \<open>n\<close>-th timer of the call fires \<open>late n\<close> milliseconds after its
  delay. The result is the number of timers awaited, the time of admission and the
  bucket; \<open>None\<close> stands for a call that waits forever.
\<close>

partial_function (option) acquire ::
  "(nat \<Rightarrow> int) \<Rightarrow> nat \<Rightarrow> int \<Rightarrow> RateLimiter \<Rightarrow> (nat \<times> int \<times> RateLimiter) option" where
  "acquire late n now rl =
     (let rl1 = refill now rl in
      if tokens rl1 < 1 then
        (let waitMs = \<lceil>(1 / refillRate rl1) * 1000\<rceil>
         in acquire late (Suc n) (now + setTimeout_delay waitMs + late n) rl1)
      else Some (n, now, rl1\<lparr>tokens := tokens rl1 - 1\<rparr>))"

definition getAvailableTokens :: "int \<Rightarrow> RateLimiter \<Rightarrow> int \<times> RateLimiter" where
  "getAvailableTokens now rl = (let rl1 = refill now rl in (\<lfloor>tokens rl1\<rfloor>, rl1))"





section \<open>Credential obfuscation and the request routines (api-client.ts)\<close>

type_synonym Buffer = "8 word list"

text \<open>\<^verbatim>\<open>Buffer.from(s, "utf-8")\<close> and \<^verbatim>\<open>buf.toString("utf-8")\<close> on the bytes of a string.\<close>

definition Buffer_from :: "string \<Rightarrow> Buffer" where
  "Buffer_from s = map (\<lambda>c. of_nat (of_char c)) s"

definition Buffer_toString :: "Buffer \<Rightarrow> string" where
  "Buffer_toString buf = map (\<lambda>b. char_of (unat b)) buf"

definition Buffer_alloc :: "nat \<Rightarrow> Buffer" where
  "Buffer_alloc n = replicate n 0"

text \<open>Reading \<^verbatim>\<open>buf[i]\<close> as an operand of \<^verbatim>\<open>^\<close>: out of range the read is \<^verbatim>\<open>undefined\<close>, which
  \<^verbatim>\<open>^\<close> takes as 0.\<close>

definition byte_at :: "Buffer \<Rightarrow> nat \<Rightarrow> 8 word" where
  "byte_at buf i = (if i < length buf then buf ! i else 0)"

text \<open>\<^verbatim>\<open>for (let i = 0; i < n; i++) dst[i] = a[i] ^ b[i]\<close>\<close>

definition xor_into :: "Buffer \<Rightarrow> Buffer \<Rightarrow> nat \<Rightarrow> Buffer \<Rightarrow> Buffer" where
  "xor_into a b n dst = fold (\<lambda>i buf. buf[i := byte_at a i XOR byte_at b i]) [0..<n] dst"

record CloudflareConfig =
  apiToken :: string

record CloudflareClient =
  tokenXorKey :: Buffer
  obfuscatedToken :: Buffer
  rateLimiter :: RateLimiter

text \<open>
  The constructor. \<open>randomBytes\<close> is the platform's random source and \<open>now\<close> the clock. The
  configuration object is shared with the caller, so it is returned as the constructor
  leaves it.
\<close>

definition constructor ::
  "(nat \<Rightarrow> Buffer) \<Rightarrow> int \<Rightarrow> CloudflareConfig \<Rightarrow> CloudflareConfig \<times> CloudflareClient" where
  "constructor randomBytes now config =
     (let tokenBuffer = Buffer_from (apiToken config);
          key = randomBytes (length tokenBuffer);
          obfuscated = xor_into tokenBuffer key (length tokenBuffer)
                         (Buffer_alloc (length tokenBuffer))
      in (config,
          \<lparr>tokenXorKey = key, obfuscatedToken = obfuscated,
           rateLimiter = RateLimiter_new 100 10 now\<rparr>))"

definition getToken :: "CloudflareClient \<Rightarrow> string" where
  "getToken c =
     (let token = xor_into (obfuscatedToken c) (tokenXorKey c) (length (obfuscatedToken c))
                    (Buffer_alloc (length (obfuscatedToken c)));
          result = Buffer_toString token
      in result)"

record ApiError =
  code :: int
  message :: string

record CloudflareResponse =
  success :: bool
  errors :: "ApiError list"
  messages :: "string list"
  result :: json

definition SAFE_ERROR_CODES :: "(int \<times> string) list" where
  "SAFE_ERROR_CODES =
     [(6003, ''Invalid request parameters''),
      (6100, ''Invalid request headers''),
      (6200, ''Invalid request body''),
      (7000, ''Authentication error''),
      (7003, ''Forbidden - insufficient permissions''),
      (9109, ''Resource not found''),
      (10000, ''Rate limit exceeded'')]"

text \<open>\<^verbatim>\<open>SAFE_ERROR_CODES[e.code] ?? "An error occurred processing your request"\<close>\<close>

definition safe_message :: "ApiError \<Rightarrow> string" where
  "safe_message e =
     (case map_of SAFE_ERROR_CODES (code e) of
        Some m \<Rightarrow> m
      | None \<Rightarrow> ''An error occurred processing your request'')"

text \<open>What the upstream does with one call: \<^verbatim>\<open>fetch\<close> rejects, or \<^verbatim>\<open>response.json()\<close> rejects,
  or the body is parsed.\<close>

datatype 'a fetched = Fetch_rejects thrown | Json_rejects thrown | Json_resolves 'a

text \<open>The part of the world the routines change: the clock and the lines written to
  standard error.\<close>

record World =
  clock :: int
  stderr :: "json list"

text \<open>\<^verbatim>\<open>error instanceof Error ? error.message : "Unknown error"\<close>\<close>

definition caught_message :: "thrown \<Rightarrow> string" where
  "caught_message error = (if instanceof_Error error then message_of error else ''Unknown error'')"

text \<open>\<^verbatim>\<open>...(errorMessage && { errorMessage })\<close>\<close>

definition spread_errorMessage :: "string option \<Rightarrow> string option" where
  "spread_errorMessage msg =
     (case msg of None \<Rightarrow> None | Some m \<Rightarrow> if m \<noteq> [] then Some m else None)"

text \<open>
  The \<^verbatim>\<open>try\<close> and \<^verbatim>\<open>catch\<close> blocks of \<^verbatim>\<open>request\<close>: the outcome, and the variables \<^verbatim>\<open>success\<close> and
  \<^verbatim>\<open>errorMessage\<close> as the \<^verbatim>\<open>finally\<close> block finds them.
\<close>

definition request_try ::
  "CloudflareResponse fetched \<Rightarrow> (thrown + CloudflareResponse) \<times> bool \<times> string option" where
  "request_try http =
     (case http of
        Fetch_rejects error \<Rightarrow> (Inl error, False, Some (caught_message error))
      | Json_rejects error \<Rightarrow> (Inl error, False, Some (caught_message error))
      | Json_resolves data \<Rightarrow>
          if \<not> CloudflareResponse.success data then
            (let safeMessages = map safe_message (errors data);
                 uniqueMessages = Set_values [] safeMessages;
                 joined = join ''; '' uniqueMessages;
                 error = Error (''Cloudflare API error: '' @ joined)
             in (Inl error, False, Some (caught_message error)))
          else (Inr data, True, None))"

text \<open>
  \<^verbatim>\<open>request\<close>. The platform gives \<open>toISOString\<close> and the lateness of timers; \<open>http\<close> is what
  the upstream does and \<open>rtt\<close> the time from \<^verbatim>\<open>startTime\<close> to the \<^verbatim>\<open>finally\<close> block. A parsed
  body has the shape of the interface \<^verbatim>\<open>CloudflareResponse\<close>, as the cast in the source takes
  it. The URL and the headers have no influence on the outcome and are not modelled. The
  result is \<open>None\<close> when \<^verbatim>\<open>acquire\<close> never returns.
\<close>

definition request ::
  "(int \<Rightarrow> string) \<Rightarrow> (nat \<Rightarrow> int) \<Rightarrow> CloudflareResponse fetched \<Rightarrow> int \<Rightarrow>
   World \<Rightarrow> CloudflareClient \<Rightarrow> string \<Rightarrow> string \<Rightarrow> (string \<times> json) list option \<Rightarrow>
   (World \<times> CloudflareClient \<times> (thrown + CloudflareResponse)) option" where
  "request toISOString late http rtt w c method endpoint params =
     (case acquire late 0 (clock w) (rateLimiter c) of
        None \<Rightarrow> None
      | Some (n, admitted, rl) \<Rightarrow>
          let startTime = admitted;
              (outcome, success', errorMessage') = request_try http;
              finished = admitted + rtt;
              event = \<lparr>timestamp = toISOString finished,
                       tool = method @ '' '' @ endpoint,
                       parameters = (case params of Some p \<Rightarrow> p | None \<Rightarrow> []),
                       AuditEvent.success = success',
                       errorMessage = spread_errorMessage errorMessage',
                       durationMs = finished - startTime\<rparr>
          in Some (w\<lparr>clock := finished, stderr := logAuditEvent event (stderr w)\<rparr>,
                   c\<lparr>rateLimiter := rl\<rparr>,
                   outcome))"

text \<open>The \<^verbatim>\<open>try\<close> and \<^verbatim>\<open>catch\<close> blocks of \<^verbatim>\<open>graphqlAnalytics\<close>: the parsed body is returned as it
  is.\<close>

definition graphql_try :: "json fetched \<Rightarrow> (thrown + json) \<times> bool \<times> string option" where
  "graphql_try http =
     (case http of
        Fetch_rejects error \<Rightarrow> (Inl error, False, Some (caught_message error))
      | Json_rejects error \<Rightarrow> (Inl error, False, Some (caught_message error))
      | Json_resolves body \<Rightarrow> (Inr body, True, None))"

text \<open>
  \<^verbatim>\<open>graphqlAnalytics\<close>. The query guard runs first, then \<^verbatim>\<open>acquire\<close>, then the variables are
  validated; the \<^verbatim>\<open>try\<close> block starts after that.
\<close>

definition graphqlAnalytics ::
  "(int \<Rightarrow> string) \<Rightarrow> (nat \<Rightarrow> int) \<Rightarrow> (string \<Rightarrow> thrown + json) \<Rightarrow> json fetched \<Rightarrow> int \<Rightarrow>
   World \<Rightarrow> CloudflareClient \<Rightarrow> json \<Rightarrow> string option \<Rightarrow>
   (World \<times> CloudflareClient \<times> (thrown + json)) option" where
  "graphqlAnalytics toISOString late JSON_parse http rtt w c query variables =
     (case validateGraphQLQuery query of
        Inl error \<Rightarrow> Some (w, c, Inl error)
      | Inr _ \<Rightarrow>
         (case acquire late 0 (clock w) (rateLimiter c) of
            None \<Rightarrow> None
          | Some (n, admitted, rl) \<Rightarrow>
              let startTime = admitted;
                  hasVariables = (case variables of None \<Rightarrow> False | Some text \<Rightarrow> text \<noteq> [])
              in
              (case (if hasVariables then validateGraphQLVariables JSON_parse variables
                     else Inr JUndefined) of
                 Inl error \<Rightarrow> Some (w\<lparr>clock := admitted\<rparr>, c\<lparr>rateLimiter := rl\<rparr>, Inl error)
               | Inr body_variables \<Rightarrow>
                   let (outcome, success', errorMessage') = graphql_try http;
                       finished = admitted + rtt;
                       event = \<lparr>timestamp = toISOString finished,
                                tool = ''POST /graphql'',
                                parameters =
                                  [(''queryLength'', JNum (real (length (string_of query)))),
                                   (''hasVariables'', JBool hasVariables)],
                                AuditEvent.success = success',
                                errorMessage = spread_errorMessage errorMessage',
                                durationMs = finished - startTime\<rparr>
                   in Some (w\<lparr>clock := finished, stderr := logAuditEvent event (stderr w)\<rparr>,
                            c\<lparr>rateLimiter := rl\<rparr>,
                            outcome))))"

text \<open>The audit record of one attempt, in the words of the specification: the operation,
  the parameters (sanitized), the outcome, the optional error summary and the elapsed
  time.\<close>

definition audit_record ::
  "string \<Rightarrow> string \<Rightarrow> (string \<times> json) list \<Rightarrow> bool \<Rightarrow> string option \<Rightarrow> int \<Rightarrow> json" where
  "audit_record time operation params ok summary elapsed =
     JObj ([(''type'', JStr ''audit''),
            (''timestamp'', JStr time),
            (''tool'', JStr operation),
            (''parameters'', JObj (sanitizeParams (JObj params))),
            (''success'', JBool ok),
            (''durationMs'', JNum (real_of_int elapsed))] @
           (case summary of None \<Rightarrow> [] | Some m \<Rightarrow> [(''errorMessage'', JStr m)]))"

definition returned :: "'a + 'b \<Rightarrow> bool" where
  "returned outcome = (case outcome of Inl error \<Rightarrow> False | Inr value \<Rightarrow> True)"

definition summary_of :: "thrown + 'b \<Rightarrow> string option" where
  "summary_of outcome =
     (case outcome of
        Inl error \<Rightarrow> if caught_message error = [] then None else Some (caught_message error)
      | Inr value \<Rightarrow> None)"

section \<open>Properties of the audit sanitizer\<close>

lemma assign_assigned_value:
  "(if redact_key key then assign acc key REDACTED
    else if typeof value = ''object'' \<and> value \<noteq> JNull
      then assign acc key (JObj (sanitizeParams value))
    else assign acc key value) = assign acc key (assigned_value key value)"
  by (simp add: assigned_value_def)

lemma sanitize_loop_Cons:
  "sanitize_loop ((key, value) # rest) acc =
     sanitize_loop rest (assign acc key (assigned_value key value))"
  by (simp add: assigned_value_def)

lemma sanitize_loop_append:
  "sanitize_loop (xs @ ys) acc = sanitize_loop ys (sanitize_loop xs acc)"
proof (induction xs arbitrary: acc)
  case Nil
  show ?case by simp
next
  case (Cons e xs)
  obtain k v where "e = (k, v)" by (cases e)
  with Cons show ?case by (simp only: append_Cons sanitize_loop_Cons)
qed

lemma redact_key_proto: "\<not> redact_key ''__proto__''"
  by (simp add: redact_key_def REDACT_KEYS_def toLowerCase_def toLowerChar_def)

lemma put_fresh: "key \<notin> set (map fst acc) \<Longrightarrow> put acc key v = acc @ [(key, v)]"
  by (induction acc key v rule: put.induct) auto

lemma map_of_put: "map_of (put acc key v) = (map_of acc)(key \<mapsto> v)"
  by (induction acc key v rule: put.induct) auto

lemma keys_put:
  "map fst (put acc key v) =
     (if key \<in> set (map fst acc) then map fst acc else map fst acc @ [key])"
  by (induction acc key v rule: put.induct) auto

lemma set_put: "set (put acc key v) \<subseteq> insert (key, v) (set acc)"
  by (induction acc key v rule: put.induct) auto

lemma sanitize_loop_distinct:
  "distinct (map fst acc @ map fst es) \<Longrightarrow>
   sanitize_loop es acc =
     acc @ map (\<lambda>(k, v). (k, assigned_value k v)) (filter (\<lambda>(k, v). k \<noteq> ''__proto__'') es)"
proof (induction es arbitrary: acc)
  case Nil
  then show ?case by simp
next
  case (Cons e es)
  obtain k v where e: "e = (k, v)" by (cases e)
  show ?case
  proof (cases "k = ''__proto__''")
    case True
    with Cons e show ?thesis
      by (simp add: sanitize_loop_Cons assign_def del: sanitize_loop.simps)
  next
    case False
    from Cons.prems e have fresh: "k \<notin> set (map fst acc)" by auto
    from Cons.prems e have "distinct (map fst (acc @ [(k, assigned_value k v)]) @ map fst es)"
      by auto
    from Cons.IH [OF this] False fresh e show ?thesis
      by (simp add: sanitize_loop_Cons assign_def put_fresh del: sanitize_loop.simps)
  qed
qed

lemma sanitizeParams_distinct:
  "distinct (map fst es) \<Longrightarrow>
   sanitizeParams (JObj es) =
     map (\<lambda>(k, v). (k, assigned_value k v)) (filter (\<lambda>(k, v). k \<noteq> ''__proto__'') es)"
  using sanitize_loop_distinct [of "[]" es] by (simp add: sanitizeParams.simps)



lemma sanitized_assign:
  assumes "sanitized (JObj acc)"
    and "if redact_key key then v = REDACTED else sanitized v"
  shows "sanitized (JObj (assign acc key v))"
proof (cases "key = ''__proto__''")
  case True
  with assms(1) show ?thesis by (simp add: assign_def)
next
  case False
  from assms(1) have "distinct (map fst (put acc key v))"
    by (auto simp: keys_put)
  moreover from assms(1) False have "''__proto__'' \<notin> set (map fst (put acc key v))"
    by (auto simp: keys_put)
  moreover have
    "\<forall>(k, w) \<in> set (put acc key v). if redact_key k then w = REDACTED else sanitized w"
  proof (clarify)
    fix k w
    assume "(k, w) \<in> set (put acc key v)"
    with set_put [of acc key v] have "(k, w) = (key, v) \<or> (k, w) \<in> set acc" by auto
    then show "if redact_key k then w = REDACTED else sanitized w"
    proof
      assume "(k, w) = (key, v)"
      with assms(2) show ?thesis by simp
    next
      assume "(k, w) \<in> set acc"
      with assms(1) show ?thesis by (simp add: list_all_iff split_beta) force
    qed
  qed
  ultimately show ?thesis using False
    by (simp add: assign_def list_all_iff)
qed

lemma sanitizeParams_sanitized_aux:
  "sanitized (JObj (sanitizeParams p))"
  "sanitized (JObj acc) \<Longrightarrow> sanitized (JObj (sanitize_loop es acc))"
proof (induction p and es acc rule: sanitizeParams_sanitize_loop.induct)
  case (1 params)
  then show ?case by (simp add: sanitizeParams.simps)
next
  case (2 acc)
  then show ?case by simp
next
  case (3 key "value" rest acc)
  have "if redact_key key then assigned_value key value = REDACTED
        else sanitized (assigned_value key value)"
    using "3.IH"(1) by (cases "value") (auto simp: assigned_value_def)
  with "3.prems" have "sanitized (JObj (assign acc key (assigned_value key value)))"
    by (rule sanitized_assign)
  then have "sanitized (JObj (sanitize_loop rest (assign acc key (assigned_value key value))))"
    using "3.IH"(2) by (simp only: assign_assigned_value)
  then show ?case by (simp only: sanitize_loop_Cons)
qed

lemma sanitized_fixed_aux:
  "sanitized v \<Longrightarrow> v = JObj es \<Longrightarrow> sanitizeParams v = es"
proof (induction v arbitrary: es rule: sanitized.induct)
  case (1 es')
  then have es: "es' = es" and san: "sanitized (JObj es)" by simp_all
  have same: "assigned_value k v = v" if mem: "(k, v) \<in> set es" for k v
  proof (cases "redact_key k")
    case True
    with san mem show ?thesis by (auto simp: assigned_value_def list_all_iff)
  next
    case False
    with san mem have sv: "sanitized v" by (auto simp: list_all_iff)
    show ?thesis
    proof (cases v)
      case (JObj sub)
      from "1.IH" [OF _ _ False sv JObj] mem es have "sanitizeParams v = sub" by simp
      with False JObj show ?thesis by (simp add: assigned_value_def)
    next
      case (JArr vs)
      with sv show ?thesis by simp
    qed (simp_all add: assigned_value_def False)
  qed
  from san have "filter (\<lambda>(k, v). k \<noteq> ''__proto__'') es = es"
    by (force simp: filter_id_conv)
  moreover from same have "map (\<lambda>(k, v). (k, assigned_value k v)) es = es"
    by (simp add: map_idI case_prod_beta)
  moreover from san have "distinct (map fst es)" by simp
  ultimately show ?case using es by (simp add: sanitizeParams_distinct)
qed simp_all

lemma sanitize_loop_redacted:
  "redact_key key \<Longrightarrow> key \<in> fst ` set es \<or> map_of acc key = Some REDACTED \<Longrightarrow>
   map_of (sanitize_loop es acc) key = Some REDACTED"
proof (induction es arbitrary: acc)
  case Nil
  then show ?case by simp
next
  case (Cons e es)
  obtain k v where e: "e = (k, v)" by (cases e)
  have "key \<in> fst ` set es \<or> map_of (assign acc k (assigned_value k v)) key = Some REDACTED"
  proof (cases "k = key")
    case True
    with Cons.prems(1) redact_key_proto have "key \<noteq> ''__proto__''" by auto
    with True Cons.prems(1) show ?thesis
      by (simp add: assign_def map_of_put assigned_value_def)
  next
    case False
    with Cons.prems(2) e show ?thesis
      by (auto simp: assign_def map_of_put)
  qed
  from Cons.IH [OF Cons.prems(1) this] e show ?case
    by (simp only: sanitize_loop_Cons)
qed




text \<open>
  C10. Redaction by key comes before recursion. The value under a matching key has no
  influence on the result, whatever it is, a nested mapping included; the result holds the
  marker under every matching key of the input; at every depth of the result every
  matching key holds the marker (\<open>sanitized\<close>); and sanitizing a sanitized mapping
  changes nothing.
\<close>

theorem redaction_before_recursion:
  "(redact_key key \<longrightarrow>
      sanitizeParams (JObj (before @ (key, value) # after))
      = sanitizeParams (JObj (before @ (key, value') # after))) \<and>
   (redact_key key \<and> (key, value) \<in> set params \<longrightarrow>
      map_of (sanitizeParams (JObj params)) key = Some (JStr ''[REDACTED]'')) \<and>
   sanitized (JObj (sanitizeParams p)) \<and>
   sanitizeParams (JObj (sanitizeParams p)) = sanitizeParams p"
proof (intro conjI impI)
  assume "redact_key key"
  then have "assigned_value key value = assigned_value key value'"
    by (simp add: assigned_value_def)
  then show "sanitizeParams (JObj (before @ (key, value) # after))
             = sanitizeParams (JObj (before @ (key, value') # after))"
    by (simp only: sanitizeParams.simps Object_entries.simps sanitize_loop_append
        sanitize_loop_Cons)
next
  assume "redact_key key \<and> (key, value) \<in> set params"
  then have "redact_key key" and "key \<in> fst ` set params" by force+
  then have "map_of (sanitize_loop params []) key = Some REDACTED"
    by (simp add: sanitize_loop_redacted)
  then show "map_of (sanitizeParams (JObj params)) key = Some (JStr ''[REDACTED]'')"
    by (simp add: sanitizeParams.simps REDACTED_def)
next
  show "sanitized (JObj (sanitizeParams p))"
    by (rule sanitizeParams_sanitized_aux(1))
next
  show "sanitizeParams (JObj (sanitizeParams p)) = sanitizeParams p"
    by (rule sanitized_fixed_aux [OF sanitizeParams_sanitized_aux(1) refl])
qed

theorem redaction_before_recursion_witness:
  "redact_key ''API_KEY'' \<and>
   (''API_KEY'', JObj [(''id'', JStr ''abc''), (''value'', JStr ''s3cr3t'')])
     \<in> set [(''zone'', JStr ''z''),
             (''API_KEY'', JObj [(''id'', JStr ''abc''), (''value'', JStr ''s3cr3t'')])] \<and>
   sanitizeParams (JObj [(''zone'', JStr ''z''),
                         (''API_KEY'', JObj [(''id'', JStr ''abc''), (''value'', JStr ''s3cr3t'')])])
   = [(''zone'', JStr ''z''), (''API_KEY'', JStr ''[REDACTED]'')] \<and>
   sanitizeParams (JObj [(''zone'', JStr ''z''), (''API_KEY'', JNull)])
   = [(''zone'', JStr ''z''), (''API_KEY'', JStr ''[REDACTED]'')] \<and>
   sanitizeParams (JObj [(''zone'', JStr ''z''), (''API_KEY'', JStr ''[REDACTED]'')])
   = [(''zone'', JStr ''z''), (''API_KEY'', JStr ''[REDACTED]'')]"
  using redaction_before_recursion
    [of "''API_KEY''" "[(''zone'', JStr ''z'')]"
        "JObj [(''id'', JStr ''abc''), (''value'', JStr ''s3cr3t'')]" "[]" JNull
        "[(''zone'', JStr ''z''),
          (''API_KEY'', JObj [(''id'', JStr ''abc''), (''value'', JStr ''s3cr3t'')])]"
        "JObj [(''zone'', JStr ''z''),
          (''API_KEY'', JObj [(''id'', JStr ''abc''), (''value'', JStr ''s3cr3t'')])]"]
  by (simp add: sanitizeParams.simps redact_key_def REDACT_KEYS_def toLowerCase_def
      toLowerChar_def assign_def REDACTED_def)

section \<open>Properties of the query guard\<close>


















lemma guard_accepts_anonymous:
  "validateGraphQLQuery (JStr ''{ viewer { zones { id } } }'') = Inr ()"
  by code_simp





section \<open>Properties of the token bucket\<close>

lemma refill_fields:
  "tokens (refill now rl) =
     min (maxTokens rl) (tokens rl + real_of_int (now - lastRefill rl) / 1000 * refillRate rl)"
  "lastRefill (refill now rl) = now"
  "maxTokens (refill now rl) = maxTokens rl"
  "refillRate (refill now rl) = refillRate rl"
  by (simp_all add: refill_def Let_def)


lemma setTimeout_delay_pos: "1 \<le> setTimeout_delay ms"
  by (simp add: setTimeout_delay_def)

lemma acquire_admit:
  "1 \<le> tokens (refill now rl) \<Longrightarrow>
   acquire late n now rl = Some (n, now, (refill now rl)\<lparr>tokens := tokens (refill now rl) - 1\<rparr>)"
  by (subst acquire.simps) (simp add: Let_def)

lemma acquire_wait:
  "tokens (refill now rl) < 1 \<Longrightarrow>
   acquire late n now rl =
     acquire late (Suc n) (now + setTimeout_delay \<lceil>1000 / refillRate rl\<rceil> + late n) (refill now rl)"
  by (subst acquire.simps) (simp add: Let_def refill_fields)






lemma acquire_terminates:
  assumes "0 < refillRate rl" and "1 \<le> maxTokens rl" and "\<forall>k. 0 \<le> late k"
  shows "\<exists>r. acquire late n now rl = Some r"
  using assms(1,2)
proof (induction "nat \<lceil>(1 - tokens (refill now rl)) * 1000 / refillRate rl\<rceil>"
       arbitrary: n now rl rule: less_induct)
  case less
  show ?case
  proof (cases "tokens (refill now rl) < 1")
    case False
    then show ?thesis by (simp add: acquire_admit)
  next
    case True
    define d where "d = setTimeout_delay \<lceil>1000 / refillRate rl\<rceil> + late n"
    define rl1 where "rl1 = refill now rl"
    from assms(3) have "0 \<le> late n" by simp
    with setTimeout_delay_pos [of "\<lceil>1000 / refillRate rl\<rceil>"]
    have d: "1 \<le> d" unfolding d_def by linarith
    have rate1: "0 < refillRate rl1" and cap1: "1 \<le> maxTokens rl1"
      and rate_eq: "refillRate rl1 = refillRate rl"
      using less.prems by (simp_all add: rl1_def refill_fields)
    let ?X = "(1 - tokens rl1) * 1000 / refillRate rl"
    let ?t2 = "tokens (refill (now + d) rl1)"
    have X: "0 < ?X" using True less.prems(1) by (simp add: rl1_def)
    have t2: "?t2 = min (maxTokens rl) (tokens rl1 + real_of_int d / 1000 * refillRate rl)"
      by (simp add: refill_fields rl1_def)
    have "(1 - ?t2) * 1000 / refillRate rl \<le> ?X - 1 \<or> 1 \<le> ?t2"
    proof (cases "maxTokens rl \<le> tokens rl1 + real_of_int d / 1000 * refillRate rl")
      case True
      with t2 less.prems(2) show ?thesis by simp
    next
      case False
      with t2 have "?t2 = tokens rl1 + real_of_int d / 1000 * refillRate rl" by simp
      then have "(1 - ?t2) * 1000 / refillRate rl = ?X - real_of_int d"
        using less.prems(1) by (simp add: field_simps)
      with d show ?thesis by simp
    qed
    then have "nat \<lceil>(1 - ?t2) * 1000 / refillRate rl1\<rceil> < nat \<lceil>?X\<rceil>"
    proof
      assume "(1 - ?t2) * 1000 / refillRate rl \<le> ?X - 1"
      then have "\<lceil>(1 - ?t2) * 1000 / refillRate rl\<rceil> \<le> \<lceil>?X - 1\<rceil>" by (rule ceiling_mono)
      also have "\<dots> = \<lceil>?X\<rceil> - 1" by simp
      finally have "\<lceil>(1 - ?t2) * 1000 / refillRate rl\<rceil> < \<lceil>?X\<rceil>" by simp
      moreover from X have "0 < \<lceil>?X\<rceil>" by simp
      ultimately show ?thesis unfolding rate_eq by simp
    next
      assume "1 \<le> ?t2"
      then have "(1 - ?t2) * 1000 / refillRate rl \<le> 0"
        using less.prems(1) by (simp add: field_simps)
      then have "\<lceil>(1 - ?t2) * 1000 / refillRate rl\<rceil> \<le> 0" by (simp add: ceiling_le_zero)
      moreover from X have "0 < \<lceil>?X\<rceil>" by simp
      ultimately show ?thesis unfolding rate_eq by simp
    qed
    then have "\<exists>r. acquire late (Suc n) (now + d) rl1 = Some r"
      unfolding rl1_def by (rule less.hyps [OF _ rate1 [unfolded rl1_def] cap1 [unfolded rl1_def]])
    with True show ?thesis
      by (simp add: acquire_wait d_def rl1_def add.assoc)
  qed
qed








section \<open>Properties of the credential obfuscation\<close>

lemma fold_update_prefix:
  "k \<le> length buf \<Longrightarrow>
   fold (\<lambda>i b. b[i := f i]) [0..<k] buf = map f [0..<k] @ drop k buf"
proof (induction k)
  case 0
  show ?case by simp
next
  case (Suc k)
  then have k: "k < length buf" by simp
  then have "(map f [0..<k] @ drop k buf)[k := f k] = map f [0..<k] @ (drop k buf)[0 := f k]"
    by (simp add: list_update_append)
  also from k have "(drop k buf)[0 := f k] = f k # drop (Suc k) buf"
    by (metis Cons_nth_drop_Suc list_update_code(2))
  finally show ?case using Suc by simp
qed

lemma xor_into_alloc:
  "xor_into a b n (Buffer_alloc n) = map (\<lambda>i. byte_at a i XOR byte_at b i) [0..<n]"
  unfolding xor_into_def
  using fold_update_prefix [of n "Buffer_alloc n" "\<lambda>i. byte_at a i XOR byte_at b i"]
  by (simp add: Buffer_alloc_def)

lemma byte_at_map: "i < n \<Longrightarrow> byte_at (map f [0..<n]) i = f i"
  by (simp add: byte_at_def)

lemma byte_at_nth: "i < length buf \<Longrightarrow> byte_at buf i = buf ! i"
  by (simp add: byte_at_def)

lemma Buffer_roundtrip: "Buffer_toString (Buffer_from s) = s"
  by (simp add: Buffer_toString_def Buffer_from_def unat_of_nat comp_def map_idI)

lemma length_Buffer_from: "length (Buffer_from s) = length s"
  by (simp add: Buffer_from_def)

lemma obfuscatedToken_constructor:
  "obfuscatedToken (snd (constructor randomBytes now config))
   = map (\<lambda>i. byte_at (Buffer_from (apiToken config)) i
               XOR byte_at (randomBytes (length (apiToken config))) i)
       [0..<length (apiToken config)]"
  by (simp add: constructor_def Let_def xor_into_alloc length_Buffer_from)

lemma tokenXorKey_constructor:
  "tokenXorKey (snd (constructor randomBytes now config))
   = randomBytes (length (apiToken config))"
  by (simp add: constructor_def Let_def length_Buffer_from)

lemma getToken_constructor:
  "getToken (snd (constructor randomBytes now config)) = apiToken config"
proof -
  let ?c = "snd (constructor randomBytes now config)"
  let ?t = "Buffer_from (apiToken config)"
  let ?k = "randomBytes (length (apiToken config))"
  let ?n = "length (apiToken config)"
  have len: "length (obfuscatedToken ?c) = ?n"
    by (simp add: obfuscatedToken_constructor)
  have "map (\<lambda>i. byte_at (obfuscatedToken ?c) i XOR byte_at (tokenXorKey ?c) i) [0..<?n]
        = map (\<lambda>i. ?t ! i) [0..<?n]"
  proof (rule map_cong [OF refl])
    fix i assume "i \<in> set [0..<?n]"
    then have i: "i < ?n" by simp
    then have "byte_at (obfuscatedToken ?c) i = byte_at ?t i XOR byte_at ?k i"
      by (simp add: obfuscatedToken_constructor byte_at_map)
    then have "byte_at (obfuscatedToken ?c) i XOR byte_at (tokenXorKey ?c) i = byte_at ?t i"
      by (simp add: tokenXorKey_constructor xor.assoc)
    with i show "byte_at (obfuscatedToken ?c) i XOR byte_at (tokenXorKey ?c) i = ?t ! i"
      by (simp add: byte_at_nth length_Buffer_from)
  qed
  also have "\<dots> = ?t"
    using map_nth [of ?t] by (simp add: length_Buffer_from)
  finally show ?thesis
    by (simp add: getToken_def Let_def xor_into_alloc len Buffer_roundtrip)
qed

text \<open>
  C3. For every credential, the client built from it gives the credential back from
  \<open>getToken\<close>; the stored bytes and the mask have the invariant
  \<open>plaintext[i] = obfuscatedToken[i] XOR tokenXorKey[i]\<close>; and when the credential is not
  empty and the mask (of the length asked for) has a non-zero byte, the stored bytes
  differ from the plaintext bytes at some position.
\<close>

theorem credential_round_trip:
  "getToken (snd (constructor randomBytes now config)) = apiToken config \<and>
   length (obfuscatedToken (snd (constructor randomBytes now config)))
     = length (apiToken config) \<and>
   (\<forall>i < length (apiToken config).
      Buffer_from (apiToken config) ! i
      = byte_at (obfuscatedToken (snd (constructor randomBytes now config))) i
        XOR byte_at (tokenXorKey (snd (constructor randomBytes now config))) i) \<and>
   (apiToken config \<noteq> [] \<and>
    length (randomBytes (length (apiToken config))) = length (apiToken config) \<and>
    (\<exists>b \<in> set (randomBytes (length (apiToken config))). b \<noteq> 0) \<longrightarrow>
      (\<exists>i < length (apiToken config).
         obfuscatedToken (snd (constructor randomBytes now config)) ! i
         \<noteq> Buffer_from (apiToken config) ! i) \<and>
      obfuscatedToken (snd (constructor randomBytes now config))
        \<noteq> Buffer_from (apiToken config))"
proof (intro conjI impI allI)
  let ?c = "snd (constructor randomBytes now config)"
  let ?t = "Buffer_from (apiToken config)"
  let ?k = "randomBytes (length (apiToken config))"
  let ?n = "length (apiToken config)"
  show "getToken ?c = apiToken config" by (rule getToken_constructor)
  show len: "length (obfuscatedToken ?c) = ?n" by (simp add: obfuscatedToken_constructor)
  have at: "byte_at (obfuscatedToken ?c) i = ?t ! i XOR byte_at ?k i" if "i < ?n" for i
  proof -
    from that have "byte_at (obfuscatedToken ?c) i = byte_at ?t i XOR byte_at ?k i"
      by (simp add: obfuscatedToken_constructor byte_at_map)
    with that show ?thesis by (simp add: byte_at_nth length_Buffer_from)
  qed
  show "?t ! i = byte_at (obfuscatedToken ?c) i XOR byte_at (tokenXorKey ?c) i"
    if "i < ?n" for i
    using at [OF that] by (simp add: tokenXorKey_constructor xor.assoc)
  assume h: "apiToken config \<noteq> [] \<and> length ?k = ?n \<and> (\<exists>b \<in> set ?k. b \<noteq> 0)"
  then obtain i where i: "i < ?n" and nz: "?k ! i \<noteq> 0"
    by (metis in_set_conv_nth)
  from i h have "byte_at ?k i = ?k ! i" by (simp add: byte_at_nth)
  with at [OF i] i len have "obfuscatedToken ?c ! i = ?t ! i XOR ?k ! i"
    by (simp add: byte_at_nth)
  moreover have "?t ! i XOR ?k ! i \<noteq> ?t ! i"
  proof
    assume "?t ! i XOR ?k ! i = ?t ! i"
    then have "?t ! i XOR (?t ! i XOR ?k ! i) = ?t ! i XOR ?t ! i" by simp
    then have "?k ! i = 0" by (simp flip: xor.assoc)
    with nz show False by simp
  qed
  ultimately have ne: "obfuscatedToken ?c ! i \<noteq> ?t ! i" by simp
  with i show "\<exists>i < ?n. obfuscatedToken ?c ! i \<noteq> ?t ! i" by blast
  from ne show "obfuscatedToken ?c \<noteq> ?t" by auto
qed

theorem credential_round_trip_witness:
  "getToken (snd (constructor (\<lambda>n. replicate n 0x5A) 0 \<lparr>apiToken = ''ab''\<rparr>)) = ''ab'' \<and>
   ''ab'' \<noteq> [] \<and> length (replicate (length ''ab'') (0x5A :: 8 word)) = length ''ab'' \<and>
   (\<exists>b \<in> set (replicate (length ''ab'') (0x5A :: 8 word)). b \<noteq> 0) \<and>
   obfuscatedToken (snd (constructor (\<lambda>n. replicate n 0x5A) 0 \<lparr>apiToken = ''ab''\<rparr>))
     = [0x3B, 0x38] \<and>
   Buffer_from ''ab'' = [0x61, 0x62] \<and>
   obfuscatedToken (snd (constructor (\<lambda>n. replicate n 0x5A) 0 \<lparr>apiToken = ''ab''\<rparr>))
     \<noteq> Buffer_from ''ab''"
proof -
  have obf: "obfuscatedToken (snd (constructor (\<lambda>n. replicate n 0x5A) 0 \<lparr>apiToken = ''ab''\<rparr>))
     = [0x3B, 0x38]"
    by (simp add: obfuscatedToken_constructor Buffer_from_def byte_at_def upt_rec)
  have buf: "Buffer_from ''ab'' = [0x61, 0x62]"
    by (simp add: Buffer_from_def)
  from credential_round_trip [of "\<lambda>n. replicate n 0x5A" 0 "\<lparr>apiToken = ''ab''\<rparr>"] obf buf
  show ?thesis by simp
qed

text \<open>
  C8 is not what the constructor does: it only reads the configuration object. After the
  constructor returns, the caller's object holds the plaintext credential as before.
\<close>

theorem constructor_keeps_plaintext:
  "fst (constructor randomBytes now \<lparr>apiToken = ''cf-secret-token''\<rparr>)
   = \<lparr>apiToken = ''cf-secret-token''\<rparr>"
  by (simp add: constructor_def Let_def)

section \<open>Properties of the request routines\<close>

lemma request_try_summary:
  "request_try http = (outcome, ok, msg) \<Longrightarrow>
   ok = returned outcome \<and> spread_errorMessage msg = summary_of outcome"
  by (auto simp: request_try_def returned_def summary_of_def spread_errorMessage_def Let_def
      split: fetched.splits if_splits)

lemma graphql_try_summary:
  "graphql_try http = (outcome, ok, msg) \<Longrightarrow>
   ok = returned outcome \<and> spread_errorMessage msg = summary_of outcome"
  by (auto simp: graphql_try_def returned_def summary_of_def spread_errorMessage_def
      split: fetched.splits)

lemma logAuditEvent_record:
  "logAuditEvent \<lparr>timestamp = time, tool = operation, parameters = params,
                  AuditEvent.success = ok, errorMessage = summary_of outcome,
                  durationMs = elapsed\<rparr> lines
   = lines @ [audit_record time operation params ok (summary_of outcome) elapsed]"
  by (auto simp: logAuditEvent_def audit_record_def summary_of_def split: sum.splits)

lemma request_returns:
  assumes "acquire late 0 (clock w) (rateLimiter c) = Some (n, admitted, rl)"
  shows "request toISOString late http rtt w c method endpoint params
         = Some (w\<lparr>clock := admitted + rtt,
                   stderr := stderr w @
                     [audit_record (toISOString (admitted + rtt)) (method @ '' '' @ endpoint)
                        (case params of Some p \<Rightarrow> p | None \<Rightarrow> [])
                        (returned (fst (request_try http)))
                        (summary_of (fst (request_try http))) rtt]\<rparr>,
                 c\<lparr>rateLimiter := rl\<rparr>,
                 fst (request_try http))"
proof -
  obtain outcome ok msg where t: "request_try http = (outcome, ok, msg)"
    by (cases "request_try http") auto
  from request_try_summary [OF t] t assms show ?thesis
    by (simp add: request_def Let_def logAuditEvent_record)
qed

lemma graphqlAnalytics_after_guard:
  assumes "validateGraphQLQuery query = Inr ()"
    and "acquire late 0 (clock w) (rateLimiter c) = Some (n, admitted, rl)"
    and "variables = None \<or> variables = Some [] \<or>
         (\<exists>v. validateGraphQLVariables JSON_parse variables = Inr v)"
  shows "graphqlAnalytics toISOString late JSON_parse http rtt w c query variables
         = Some (w\<lparr>clock := admitted + rtt,
                   stderr := stderr w @
                     [audit_record (toISOString (admitted + rtt)) ''POST /graphql''
                        [(''queryLength'', JNum (real (length (string_of query)))),
                         (''hasVariables'', JBool (variables \<noteq> None \<and> variables \<noteq> Some []))]
                        (returned (fst (graphql_try http)))
                        (summary_of (fst (graphql_try http))) rtt]\<rparr>,
                 c\<lparr>rateLimiter := rl\<rparr>,
                 fst (graphql_try http))"
proof -
  obtain outcome ok msg where t: "graphql_try http = (outcome, ok, msg)"
    by (cases "graphql_try http") auto
  note s = graphql_try_summary [OF t]
  show ?thesis
  proof (cases variables)
    case None
    with s t assms(1,2) show ?thesis
      by (simp add: graphqlAnalytics_def Let_def logAuditEvent_record)
  next
    case (Some q)
    show ?thesis
    proof (cases "q = []")
      case True
      with Some s t assms(1,2) show ?thesis
        by (simp add: graphqlAnalytics_def Let_def logAuditEvent_record)
    next
      case False
      with Some assms(3) obtain v where "validateGraphQLVariables JSON_parse (Some q) = Inr v"
        by auto
      with False Some s t assms(1,2) show ?thesis
        by (simp add: graphqlAnalytics_def Let_def logAuditEvent_record)
    qed
  qed
qed

lemma Set_values_set: "set (Set_values seen xs) = set seen \<union> set xs"
  by (induction xs arbitrary: seen) auto

lemma Set_values_distinct: "distinct seen \<Longrightarrow> distinct (Set_values seen xs)"
  by (induction xs arbitrary: seen) auto

lemma remdups_snoc: "remdups (ys @ [x]) = remdups (filter (\<lambda>y. y \<noteq> x) ys) @ [x]"
  by (induction ys) auto

lemma Set_values_first_occurrence:
  "Set_values seen xs = seen @ rev (remdups (rev (filter (\<lambda>x. x \<notin> set seen) xs)))"
proof (induction xs arbitrary: seen)
  case Nil
  show ?case by simp
next
  case (Cons x xs)
  show ?case
  proof (cases "x \<in> set seen")
    case True
    with Cons [of seen] show ?thesis by simp
  next
    case False
    have "filter (\<lambda>y. y \<noteq> x) (rev (filter (\<lambda>y. y \<notin> set seen) xs))
          = rev (filter (\<lambda>y. y \<notin> set (seen @ [x])) xs)"
      by (simp add: rev_filter [symmetric] conj_commute)
    with False Cons [of "seen @ [x]"] show ?thesis
      by (simp add: remdups_snoc)
  qed
qed

lemma safe_message_range:
  "safe_message e \<in> snd ` set SAFE_ERROR_CODES \<union> {''An error occurred processing your request''}"
proof (cases "map_of SAFE_ERROR_CODES (code e)")
  case None
  then show ?thesis by (simp add: safe_message_def)
next
  case (Some m)
  then have "(code e, m) \<in> set SAFE_ERROR_CODES" by (rule map_of_SomeD)
  then have "m \<in> snd ` set SAFE_ERROR_CODES" by force
  with Some show ?thesis by (simp add: safe_message_def)
qed



text \<open>
  C1 (amended). When the envelope has \<open>success = false\<close>, \<open>request\<close> throws an error whose
  message is the fixed text \<^verbatim>\<open>Cloudflare API error: \<close> followed by the safe messages of the
  error codes, each once, in order of first occurrence and joined by \<^verbatim>\<open>; \<close>. Every safe
  message is an entry of the table or the one fallback text, and the message depends on
  the error codes alone: envelopes with the same codes give the same message, whatever
  message text the upstream sent. For the single code 7003 the message is
  \<^verbatim>\<open>Cloudflare API error: Forbidden - insufficient permissions\<close>.
\<close>

theorem upstream_error_is_code_mapped:
  "(\<not> CloudflareResponse.success data \<and>
    0 < refillRate (rateLimiter c) \<and> 1 \<le> maxTokens (rateLimiter c) \<and> (\<forall>k. 0 \<le> late k) \<longrightarrow>
      map_option (snd \<circ> snd)
        (request toISOString late (Json_resolves data) rtt w c method endpoint params)
      = Some (Inl (Error (''Cloudflare API error: '' @
                          join ''; '' (Set_values [] (map safe_message (errors data))))))) \<and>
   set (Set_values [] (map safe_message (errors data))) = safe_message ` set (errors data) \<and>
   distinct (Set_values [] (map safe_message (errors data))) \<and>
   Set_values [] (map safe_message (errors data))
     = rev (remdups (rev (map safe_message (errors data)))) \<and>
   safe_message ` set (errors data)
     \<subseteq> snd ` set SAFE_ERROR_CODES \<union> {''An error occurred processing your request''} \<and>
   (map code (errors data) = map code (errors data') \<longrightarrow>
      map safe_message (errors data) = map safe_message (errors data')) \<and>
   (errors data = [\<lparr>code = 7003, message = M\<rparr>] \<longrightarrow>
      ''Cloudflare API error: '' @ join ''; '' (Set_values [] (map safe_message (errors data)))
      = ''Cloudflare API error: Forbidden - insufficient permissions'')"
proof (intro conjI impI)
  assume "\<not> CloudflareResponse.success data \<and>
    0 < refillRate (rateLimiter c) \<and> 1 \<le> maxTokens (rateLimiter c) \<and> (\<forall>k. 0 \<le> late k)"
  then have f: "\<not> CloudflareResponse.success data"
    and "0 < refillRate (rateLimiter c)" and "1 \<le> maxTokens (rateLimiter c)"
    and "\<forall>k. 0 \<le> late k" by simp_all
  from acquire_terminates [OF this(2,3,4)] obtain r where
    "acquire late 0 (clock w) (rateLimiter c) = Some r" by blast
  then obtain n admitted rl where
    a: "acquire late 0 (clock w) (rateLimiter c) = Some (n, admitted, rl)" by (cases r) auto
  from f have "fst (request_try (Json_resolves data))
        = Inl (Error (''Cloudflare API error: '' @
                      join ''; '' (Set_values [] (map safe_message (errors data)))))"
    by (simp add: request_try_def Let_def)
  with request_returns [OF a, of toISOString "Json_resolves data" rtt "method" "endpoint" params]
  show "map_option (snd \<circ> snd)
        (request toISOString late (Json_resolves data) rtt w c method endpoint params)
      = Some (Inl (Error (''Cloudflare API error: '' @
                          join ''; '' (Set_values [] (map safe_message (errors data))))))"
    by simp
next
  show "set (Set_values [] (map safe_message (errors data))) = safe_message ` set (errors data)"
    by (simp add: Set_values_set)
next
  show "distinct (Set_values [] (map safe_message (errors data)))"
    by (simp add: Set_values_distinct)
next
  show "Set_values [] (map safe_message (errors data))
     = rev (remdups (rev (map safe_message (errors data))))"
    by (simp add: Set_values_first_occurrence)
next
  show "safe_message ` set (errors data)
     \<subseteq> snd ` set SAFE_ERROR_CODES \<union> {''An error occurred processing your request''}"
    using safe_message_range by blast
next
  assume "map code (errors data) = map code (errors data')"
  then show "map safe_message (errors data) = map safe_message (errors data')"
  proof -
    assume same: "map code (errors data) = map code (errors data')"
    have "map safe_message es
          = map (\<lambda>k. case map_of SAFE_ERROR_CODES k of
                        Some m \<Rightarrow> m
                      | None \<Rightarrow> ''An error occurred processing your request'')
              (map code es)" for es :: "ApiError list"
      by (simp add: safe_message_def)
    with same show ?thesis by metis
  qed
next
  assume "errors data = [\<lparr>code = 7003, message = M\<rparr>]"
  then show "''Cloudflare API error: '' @ join ''; '' (Set_values [] (map safe_message (errors data)))
      = ''Cloudflare API error: Forbidden - insufficient permissions''"
    by (simp add: safe_message_def SAFE_ERROR_CODES_def)
qed


theorem upstream_error_is_code_mapped_witness:
  "\<not> CloudflareResponse.success
       \<lparr>success = False,
        errors = [\<lparr>code = 7003, message = ''zone 1a2b is locked''\<rparr>,
                  \<lparr>code = 1234, message = ''internal host db-7''\<rparr>,
                  \<lparr>code = 7003, message = ''again''\<rparr>],
        messages = [], result = JNull\<rparr> \<and>
   0 < refillRate (RateLimiter_new 100 10 1000) \<and> 1 \<le> maxTokens (RateLimiter_new 100 10 1000) \<and>
   map_option (snd \<circ> snd)
     (request (\<lambda>t. ''T'') (\<lambda>k. 0)
        (Json_resolves
           \<lparr>success = False,
            errors = [\<lparr>code = 7003, message = ''zone 1a2b is locked''\<rparr>,
                      \<lparr>code = 1234, message = ''internal host db-7''\<rparr>,
                      \<lparr>code = 7003, message = ''again''\<rparr>],
            messages = [], result = JNull\<rparr>) 42
        \<lparr>clock = 1000, stderr = []\<rparr>
        \<lparr>tokenXorKey = [], obfuscatedToken = [], rateLimiter = RateLimiter_new 100 10 1000\<rparr>
        ''GET'' ''/zones'' None)
   = Some (Inl (Error (''Cloudflare API error: Forbidden - insufficient permissions; '' @
                       ''An error occurred processing your request'')))"
proof -
  let ?w = "\<lparr>clock = 1000, stderr = []\<rparr>"
  let ?c = "\<lparr>tokenXorKey = [], obfuscatedToken = [], rateLimiter = RateLimiter_new 100 10 1000\<rparr>"
  let ?data = "\<lparr>success = False,
        errors = [\<lparr>code = 7003, message = ''zone 1a2b is locked''\<rparr>,
                  \<lparr>code = 1234, message = ''internal host db-7''\<rparr>,
                  \<lparr>code = 7003, message = ''again''\<rparr>],
        messages = [], result = JNull\<rparr>"
  have a: "0 < refillRate (RateLimiter_new 100 10 1000) \<and>
           1 \<le> maxTokens (RateLimiter_new 100 10 1000)"
    by (simp add: RateLimiter_new_def)
  have m: "''Cloudflare API error: '' @
           join ''; '' (Set_values [] (map safe_message (errors ?data)))
           = ''Cloudflare API error: Forbidden - insufficient permissions; '' @
             ''An error occurred processing your request''"
    by (simp add: safe_message_def SAFE_ERROR_CODES_def)
  note t = upstream_error_is_code_mapped
    [of ?data ?c "\<lambda>k. 0" "\<lambda>t. ''T''" 42 ?w "''GET''" "''/zones''" None,
     THEN conjunct1, rule_format]
  have "map_option (snd \<circ> snd)
          (request (\<lambda>t. ''T'') (\<lambda>k. 0) (Json_resolves ?data) 42 ?w ?c ''GET'' ''/zones'' None)
        = Some (Inl (Error (''Cloudflare API error: '' @
                            join ''; '' (Set_values [] (map safe_message (errors ?data))))))"
    by (rule t) (use a in simp)
  then have "map_option (snd \<circ> snd)
          (request (\<lambda>t. ''T'') (\<lambda>k. 0) (Json_resolves ?data) 42 ?w ?c ''GET'' ''/zones'' None)
        = Some (Inl (Error (''Cloudflare API error: Forbidden - insufficient permissions; '' @
                            ''An error occurred processing your request'')))"
    by (simp only: m)
  with a show ?thesis by simp
qed

text \<open>
  C1 as stated fails in two ways at the code 7003 with the upstream message text
  \<^verbatim>\<open>Forbidden\<close>: the message thrown is not the safe text of 7003 itself, it carries the
  prefix \<^verbatim>\<open>Cloudflare API error: \<close>; and it does contain the upstream text, which happens to
  be part of the safe text.
\<close>

theorem upstream_error_counterexample:
  "map_option (snd \<circ> snd)
     (request (\<lambda>t. ''T'') (\<lambda>k. 0)
        (Json_resolves
           \<lparr>success = False, errors = [\<lparr>code = 7003, message = ''Forbidden''\<rparr>],
            messages = [], result = JNull\<rparr>) 42
        \<lparr>clock = 1000, stderr = []\<rparr>
        \<lparr>tokenXorKey = [], obfuscatedToken = [], rateLimiter = RateLimiter_new 100 10 1000\<rparr>
        ''GET'' ''/zones'' None)
   = Some (Inl (Error ''Cloudflare API error: Forbidden - insufficient permissions'')) \<and>
   safe_message \<lparr>code = 7003, message = ''Forbidden''\<rparr> = ''Forbidden - insufficient permissions'' \<and>
   ''Cloudflare API error: Forbidden - insufficient permissions''
     \<noteq> ''Forbidden - insufficient permissions'' \<and>
   str_includes ''Cloudflare API error: Forbidden - insufficient permissions'' ''Forbidden''"
proof -
  let ?w = "\<lparr>clock = 1000, stderr = []\<rparr>"
  let ?c = "\<lparr>tokenXorKey = [], obfuscatedToken = [], rateLimiter = RateLimiter_new 100 10 1000\<rparr>"
  have a: "acquire (\<lambda>k. 0) 0 (clock ?w) (rateLimiter ?c)
     = Some (0, 1000, \<lparr>tokens = 99, lastRefill = 1000, maxTokens = 100, refillRate = 10\<rparr>)"
    by (simp add: acquire_admit refill_def RateLimiter_new_def)
  have "fst (request_try (Json_resolves
           \<lparr>success = False, errors = [\<lparr>code = 7003, message = ''Forbidden''\<rparr>],
            messages = [], result = JNull\<rparr>))
        = Inl (Error ''Cloudflare API error: Forbidden - insufficient permissions'')"
    by (simp add: request_try_def Let_def safe_message_def SAFE_ERROR_CODES_def)
  with request_returns [OF a] have
    "map_option (snd \<circ> snd)
     (request (\<lambda>t. ''T'') (\<lambda>k. 0)
        (Json_resolves
           \<lparr>success = False, errors = [\<lparr>code = 7003, message = ''Forbidden''\<rparr>],
            messages = [], result = JNull\<rparr>) 42 ?w ?c ''GET'' ''/zones'' None)
     = Some (Inl (Error ''Cloudflare API error: Forbidden - insufficient permissions''))"
    by simp
  moreover have "safe_message \<lparr>code = 7003, message = ''Forbidden''\<rparr>
                 = ''Forbidden - insufficient permissions''"
    by (simp add: safe_message_def SAFE_ERROR_CODES_def)
  moreover have
    "str_includes ''Cloudflare API error: Forbidden - insufficient permissions'' ''Forbidden''"
    by simp
  ultimately show ?thesis by simp
qed

text \<open>
  C7 is not what \<open>graphqlAnalytics\<close> does: it never looks at the parsed body. An upstream
  body that is an envelope with \<open>success = false\<close> is returned to the caller as it is, with
  the upstream's own message text, and the audit record says that the call succeeded.
\<close>

theorem graphqlAnalytics_returns_failed_envelope:
  "graphqlAnalytics toISOString (\<lambda>k. 0) JSON_parse
     (Json_resolves
        (JObj [(''success'', JBool False),
               (''errors'', JArr [JObj [(''code'', JNum 7003),
                                        (''message'', JStr ''zone 1a2b is locked'')]]),
               (''messages'', JArr []), (''result'', JNull)])) 42
     \<lparr>clock = 1000, stderr = []\<rparr>
     \<lparr>tokenXorKey = [], obfuscatedToken = [], rateLimiter = RateLimiter_new 100 10 1000\<rparr>
     (JStr ''{ viewer { zones { id } } }'') None
   = Some (\<lparr>clock = 1042,
            stderr = [JObj [(''type'', JStr ''audit''),
                            (''timestamp'', JStr (toISOString 1042)),
                            (''tool'', JStr ''POST /graphql''),
                            (''parameters'',
                             JObj [(''queryLength'', JNum 27), (''hasVariables'', JBool False)]),
                            (''success'', JBool True), (''durationMs'', JNum 42)]]\<rparr>,
           \<lparr>tokenXorKey = [], obfuscatedToken = [],
            rateLimiter = \<lparr>tokens = 99, lastRefill = 1000, maxTokens = 100, refillRate = 10\<rparr>\<rparr>,
           Inr (JObj [(''success'', JBool False),
                      (''errors'', JArr [JObj [(''code'', JNum 7003),
                                               (''message'', JStr ''zone 1a2b is locked'')]]),
                      (''messages'', JArr []), (''result'', JNull)]))"
proof -
  let ?w = "\<lparr>clock = 1000, stderr = []\<rparr>"
  let ?c = "\<lparr>tokenXorKey = [], obfuscatedToken = [], rateLimiter = RateLimiter_new 100 10 1000\<rparr>"
  have a: "acquire (\<lambda>k. 0) 0 (clock ?w) (rateLimiter ?c)
     = Some (0, 1000, \<lparr>tokens = 99, lastRefill = 1000, maxTokens = 100, refillRate = 10\<rparr>)"
    by (simp add: acquire_admit refill_def RateLimiter_new_def)
  have s: "sanitizeParams (JObj [(''queryLength'', JNum 27), (''hasVariables'', JBool False)])
           = [(''queryLength'', JNum 27), (''hasVariables'', JBool False)]"
    by (simp add: sanitizeParams.simps redact_key_def REDACT_KEYS_def toLowerCase_def
        toLowerChar_def assign_def)
  from graphqlAnalytics_after_guard [OF guard_accepts_anonymous a, of None] s
  show ?thesis
    by (simp add: graphql_try_def audit_record_def returned_def summary_of_def)
qed

end
